theory Spec2Isabelle
  imports Main "HOL-Library.AList"
begin

section \<open>The chat hub of pkg/chat/server.go\<close>

text \<open>
  The development follows the channel-based server of \<^verbatim>\<open>pkg/chat/server.go\<close>
  (types \<^verbatim>\<open>Client\<close> and \<^verbatim>\<open>Server\<close>, the event loop \<^verbatim>\<open>Run\<close> with its three handlers,
  \<^verbatim>\<open>HandleWebSocket\<close>, \<^verbatim>\<open>GetClientList\<close>, \<^verbatim>\<open>ReadPump\<close>, \<^verbatim>\<open>handleCommand\<close>) and the two guards
  of \<^verbatim>\<open>RunClient\<close> in \<^verbatim>\<open>pkg/chat/client.go\<close>.

  Go strings are byte strings, modelled as \<^typ>\<open>string\<close>. A \<^verbatim>\<open>*Client\<close> is identified by the
  connection it wraps: every call of \<^verbatim>\<open>HandleWebSocket\<close> owns one connection and allocates at
  most one \<^verbatim>\<open>Client\<close> for it. The channel \<^verbatim>\<open>Client.Send\<close> and the connection are mutable
  objects; they live in the store of the \<open>world\<close> record below, addressed by that number.

  The source file holds two variants of the server. The one followed here is the first,
  in which clients have a \<^verbatim>\<open>Send\<close> channel and the server has the channels \<^verbatim>\<open>Register\<close>,
  \<^verbatim>\<open>Unregister\<close> and \<^verbatim>\<open>Broadcast\<close>; the second writes to the connections directly and has
  none of them.
\<close>

subsection \<open>Strings: the functions of package strings and fmt that the server calls\<close>

text \<open>\<^verbatim>\<open>strings.HasPrefix(s, prefix)\<close>.\<close>

definition HasPrefix :: "string \<Rightarrow> string \<Rightarrow> bool" where
  "HasPrefix s p = (take (length p) s = p)"

text \<open>
  \<^verbatim>\<open>strings.EqualFold\<close>. The two strings are compared byte by byte as long as both bytes are
  ASCII: equal bytes and an upper-case letter with its lower-case form match, any other
  pair ends the comparison with false, and when one string ends the result tells whether
  both have ended. At the first position where one of the two bytes is not ASCII the Go
  function goes on with the Unicode tables of simple case folding, which are left out
  here: the result is \<open>None\<close> there, and only there.
\<close>

definition ascii :: "char \<Rightarrow> bool" where
  "ascii c = ((of_char c :: nat) < 128)"

definition upper_of :: "char \<Rightarrow> char \<Rightarrow> bool" where
  "upper_of a b =
     (65 \<le> (of_char a :: nat) \<and> (of_char a :: nat) \<le> 90 \<and> (of_char b :: nat) = of_char a + 32)"

fun EqualFold :: "string \<Rightarrow> string \<Rightarrow> bool option" where
  "EqualFold [] t = Some (t = [])"
| "EqualFold (a # s) [] = Some False"
| "EqualFold (a # s) (b # t) =
     (if \<not> ascii a \<or> \<not> ascii b then None
      else if a = b \<or> upper_of a b \<or> upper_of b a then EqualFold s t
      else Some False)"

text \<open>
  \<^verbatim>\<open>strings.TrimSpace\<close> removes the leading and the trailing white space characters of
  Unicode. They are listed in their UTF-8 encodings: the six of ASCII, then U+0085,
  U+00A0, U+1680, U+2000 to U+200A, U+2028, U+2029, U+202F, U+205F and U+3000. A byte that
  starts no valid encoding is no white space, so trimming stops at it.
\<close>

definition white_space :: "string list" where
  "white_space =
     [[CHR 0x09], [CHR 0x0A], [CHR 0x0B], [CHR 0x0C], [CHR 0x0D], [CHR 0x20],
      [CHR 0xC2, CHR 0x85], [CHR 0xC2, CHR 0xA0],
      [CHR 0xE1, CHR 0x9A, CHR 0x80],
      [CHR 0xE2, CHR 0x80, CHR 0x80], [CHR 0xE2, CHR 0x80, CHR 0x81],
      [CHR 0xE2, CHR 0x80, CHR 0x82], [CHR 0xE2, CHR 0x80, CHR 0x83],
      [CHR 0xE2, CHR 0x80, CHR 0x84], [CHR 0xE2, CHR 0x80, CHR 0x85],
      [CHR 0xE2, CHR 0x80, CHR 0x86], [CHR 0xE2, CHR 0x80, CHR 0x87],
      [CHR 0xE2, CHR 0x80, CHR 0x88], [CHR 0xE2, CHR 0x80, CHR 0x89],
      [CHR 0xE2, CHR 0x80, CHR 0x8A],
      [CHR 0xE2, CHR 0x80, CHR 0xA8], [CHR 0xE2, CHR 0x80, CHR 0xA9],
      [CHR 0xE2, CHR 0x80, CHR 0xAF],
      [CHR 0xE2, CHR 0x81, CHR 0x9F],
      [CHR 0xE3, CHR 0x80, CHR 0x80]]"

text \<open>The white space character a string starts with, if it starts with one.\<close>

definition leading :: "string list \<Rightarrow> string \<Rightarrow> string option" where
  "leading ps s = find (\<lambda>p. p \<noteq> [] \<and> take (length p) s = p) ps"

function strip_left :: "string list \<Rightarrow> string \<Rightarrow> string" where
  "strip_left ps s =
     (case leading ps s of
        None \<Rightarrow> s
      | Some p \<Rightarrow> strip_left ps (drop (length p) s))"
  by pat_completeness auto
termination
proof (relation "measure (\<lambda>(ps, s). length s)")
  show "wf (measure (\<lambda>(ps, s). length s))" by simp
next
  fix ps :: "string list" and s p :: string
  assume "leading ps s = Some p"
  then have "p \<noteq> [] \<and> take (length p) s = p"
    unfolding leading_def by (auto simp: find_Some_iff)
  then have "s \<noteq> []" and "0 < length p" by auto
  then show "((ps, drop (length p) s), (ps, s)) \<in> measure (\<lambda>(ps, s). length s)"
    by simp
qed

declare strip_left.simps [simp del]

definition TrimSpace :: "string \<Rightarrow> string" where
  "TrimSpace s =
     rev (strip_left (map rev white_space) (rev (strip_left white_space s)))"


text \<open>
  \<^verbatim>\<open>strings.SplitN(s, " ", 2)\<close>: the text before the first space and the text after it, or
  the whole of \<open>s\<close> alone when it has no space.
\<close>

definition SplitN2 :: "string \<Rightarrow> string list" where
  "SplitN2 s = (if CHR '' '' \<in> set s
     then [takeWhile (\<lambda>c. c \<noteq> CHR '' '') s, tl (dropWhile (\<lambda>c. c \<noteq> CHR '' '') s)]
     else [s])"

text \<open>The verb \<^verbatim>\<open>%d\<close> of \<^verbatim>\<open>fmt.Sprintf\<close> on a non-negative integer.\<close>

definition digit :: "nat \<Rightarrow> char" where
  "digit n = ''0123456789'' ! (n mod 10)"

fun itoa :: "nat \<Rightarrow> string" where
  "itoa n = (if n < 10 then [digit n] else itoa (n div 10) @ [digit n])"

declare itoa.simps [simp del]

subsection \<open>Channels\<close>

text \<open>
  A channel of byte strings: the buffered messages, oldest first, and whether it has been
  closed. \<^verbatim>\<open>Client.Send\<close> is made with capacity 256 (\<^verbatim>\<open>HandleWebSocket\<close>).
\<close>

record chan =
  buf :: "string list"
  is_closed :: bool

definition SendCap :: nat where
  "SendCap = 256"

definition make_chan :: chan where
  "make_chan = \<lparr>buf = [], is_closed = False\<rparr>"

text \<open>
  One attempt to send on a buffered channel: on a closed channel the send panics, with
  room in the buffer the message is appended, with a full buffer the send cannot proceed.
\<close>

datatype send_result = Sent chan | Full | Closed

definition try_send :: "chan \<Rightarrow> string \<Rightarrow> send_result" where
  "try_send ch m =
     (if is_closed ch then Closed
      else if length (buf ch) < SendCap then Sent (ch\<lparr>buf := buf ch @ [m]\<rparr>)
      else Full)"

subsection \<open>Clients, the server and the store\<close>

record Client =
  Conn :: nat
  Username :: string

text \<open>
  A connection as \<^verbatim>\<open>HandleWebSocket\<close> and the reader act on it: the frames written to it with
  \<^verbatim>\<open>conn.WriteMessage\<close> by the handler itself, and whether it was closed. What the writer
  pump later moves from the channel to the connection is not recorded here.
\<close>

record conn =
  frames :: "string list"
  conn_closed :: bool

text \<open>The three channels of the server carry these values.\<close>

datatype event = RegisterEv Client | UnregisterEv Client | BroadcastEv string

text \<open>What a goroutine that cannot proceed is waiting for.\<close>

datatype wait = LockMutex | SendTo nat string | HubChan event

text \<open>
  The goroutine of \<^verbatim>\<open>Run\<close>: waiting at its \<^verbatim>\<open>select\<close>, holding a received value whose
  handler has not run yet, parked inside a handler, or gone with a panic.
\<close>

datatype hub_status = AtSelect | Got event | Stuck wait | Crashed

text \<open>
  \<open>Clients\<close> and \<open>ClientJoinTime\<close> are the two Go maps, kept as association lists; the
  order of a Go map iteration is not specified, the list order stands for the one taken.
  Times are readings of the monotonic clock in nanoseconds. \<open>Mutex\<close> tells whether some
  goroutine holds \<^verbatim>\<open>Server.Mutex\<close>.
\<close>

record world =
  Clients :: "(Client \<times> bool) list"
  ClientJoinTime :: "(Client \<times> int) list"
  Mutex :: bool
  chans :: "nat \<Rightarrow> chan"
  conns :: "nat \<Rightarrow> conn"
  hub :: hub_status

text \<open>
  How a call ends: it returns, it parks the goroutine, or it panics. \<open>Undecided\<close> stands
  where the call goes on according to a comparison of names that \<open>EqualFold\<close> leaves open.
\<close>

datatype outcome = Done world | Blocked wait world | Panic world | Undecided world

text \<open>\<^verbatim>\<open>NewServer\<close> followed by \<^verbatim>\<open>go server.Run()\<close>: empty maps, the loop at its select.\<close>

definition NewServer :: world where
  "NewServer = \<lparr>Clients = [], ClientJoinTime = [], Mutex = False,
     chans = (\<lambda>_. make_chan), conns = (\<lambda>_. \<lparr>frames = [], conn_closed = False\<rparr>),
     hub = AtSelect\<rparr>"

text \<open>The blocking send \<^verbatim>\<open>c.Send <- m\<close> on the channel of the client with connection \<open>k\<close>.\<close>

definition chan_send :: "nat \<Rightarrow> string \<Rightarrow> world \<Rightarrow> outcome" where
  "chan_send k m w =
     (case try_send (chans w k) m of
        Sent ch \<Rightarrow> Done (w\<lparr>chans := (chans w)(k := ch)\<rparr>)
      | Full \<Rightarrow> Blocked (SendTo k m) w
      | Closed \<Rightarrow> Panic w)"

subsection \<open>broadcastMessage\<close>

text \<open>
  The loop of \<^verbatim>\<open>broadcastMessage\<close> over the clients present when it starts. The
  \<^verbatim>\<open>select\<close> with a \<^verbatim>\<open>default\<close> sends when the buffer has room; otherwise the default
  branch closes the channel and deletes the client from both maps.
\<close>

fun broadcast_loop :: "string \<Rightarrow> Client list \<Rightarrow> world \<Rightarrow> outcome" where
  "broadcast_loop message [] w = Done w"
| "broadcast_loop message (client # rest) w =
     (case try_send (chans w (Conn client)) message of
        Sent ch \<Rightarrow> broadcast_loop message rest (w\<lparr>chans := (chans w)(Conn client := ch)\<rparr>)
      | Full \<Rightarrow> broadcast_loop message rest
          (w\<lparr>chans := (chans w)(Conn client := (chans w (Conn client))\<lparr>is_closed := True\<rparr>),
             Clients := AList.delete client (Clients w),
             ClientJoinTime := AList.delete client (ClientJoinTime w)\<rparr>)
      | Closed \<Rightarrow> Panic w)"

text \<open>The deferred \<^verbatim>\<open>Unlock\<close> runs when the body returns.\<close>

fun unlock :: "outcome \<Rightarrow> outcome" where
  "unlock (Done w) = Done (w\<lparr>Mutex := False\<rparr>)"
| "unlock r = r"

definition broadcastMessage :: "string \<Rightarrow> world \<Rightarrow> outcome" where
  "broadcastMessage message w =
     (if Mutex w then Blocked LockMutex w
      else unlock (broadcast_loop message (map fst (Clients w)) (w\<lparr>Mutex := True\<rparr>)))"

subsection \<open>Sends on the server's own channels\<close>

text \<open>
  \<^verbatim>\<open>Register\<close>, \<^verbatim>\<open>Unregister\<close> and \<^verbatim>\<open>Broadcast\<close> are made without a buffer (\<^verbatim>\<open>NewServer\<close>),
  and the only receives on them are the three cases of the \<^verbatim>\<open>select\<close> in \<^verbatim>\<open>Run\<close>. A send on
  an unbuffered channel completes when a receiver takes the value. So a send from a
  connection's goroutine completes when the loop is waiting at its \<^verbatim>\<open>select\<close>, which then
  holds the value; a send made by the goroutine of \<^verbatim>\<open>Run\<close> itself, from inside one of its
  handlers, has no receiver: the loop is not at its \<^verbatim>\<open>select\<close> while a handler runs.
\<close>

datatype goroutine = RunG | ConnG

fun hub_chan_send :: "goroutine \<Rightarrow> event \<Rightarrow> world \<Rightarrow> outcome" where
  "hub_chan_send RunG ev w = Blocked (HubChan ev) w"
| "hub_chan_send ConnG ev w =
     (if hub w = AtSelect then Done (w\<lparr>hub := Got ev\<rparr>) else Blocked (HubChan ev) w)"

subsection \<open>registerClient and unregisterClient\<close>

text \<open>
  Both association lists hold every key once (they start empty and change by
  \<open>AList.update\<close> and \<open>AList.delete\<close> only), so \<^verbatim>\<open>len(s.Clients)\<close> is the length of the list.
\<close>

definition registerClient :: "int \<Rightarrow> Client \<Rightarrow> world \<Rightarrow> outcome" where
  "registerClient now client w =
     (if Mutex w then Blocked LockMutex w
      else
        let w1 = w\<lparr>Mutex := True,
                   Clients := AList.update client True (Clients w),
                   ClientJoinTime := AList.update client now (ClientJoinTime w)\<rparr>;
            welcomeMsg = ''Welcome '' @ Username client @ ''! There are '' @
              itoa (length (Clients w1)) @ '' users online. Type /help for available commands.''
        in case chan_send (Conn client) welcomeMsg w1 of
             Done w2 \<Rightarrow>
               unlock (hub_chan_send RunG
                 (BroadcastEv (''*** '' @ Username client @ '' joined the chat ***'')) w2)
           | r \<Rightarrow> r)"

text \<open>\<^verbatim>\<open>close(client.Send)\<close>; closing a closed channel panics.\<close>

definition close_chan :: "nat \<Rightarrow> world \<Rightarrow> outcome" where
  "close_chan k w =
     (if is_closed (chans w k) then Panic w
      else Done (w\<lparr>chans := (chans w)(k := (chans w k)\<lparr>is_closed := True\<rparr>)\<rparr>))"

definition unregisterClient :: "Client \<Rightarrow> world \<Rightarrow> outcome" where
  "unregisterClient client w =
     (if Mutex w then Blocked LockMutex w
      else if client \<in> fst ` set (Clients w) then
        (case close_chan (Conn client)
                (w\<lparr>Mutex := True,
                   Clients := AList.delete client (Clients w),
                   ClientJoinTime := AList.delete client (ClientJoinTime w)\<rparr>) of
           Done w2 \<Rightarrow>
             unlock (hub_chan_send RunG
               (BroadcastEv (''*** '' @ Username client @ '' left the chat ***'')) w2)
         | r \<Rightarrow> r)
      else unlock (Done (w\<lparr>Mutex := True\<rparr>)))"

subsection \<open>Run\<close>

text \<open>
  One turn of the loop of \<^verbatim>\<open>Run\<close>: the handler of the received value runs on the loop's
  goroutine; when it returns the loop is back at its \<^verbatim>\<open>select\<close>, when it parks the loop
  stays parked. \<open>now\<close> is the reading of \<^verbatim>\<open>time.Now()\<close> taken by \<^verbatim>\<open>registerClient\<close>. The three
  handlers compare no names, so none of them ends undecided.
\<close>

fun settle :: "outcome \<Rightarrow> world" where
  "settle (Done w) = w\<lparr>hub := AtSelect\<rparr>"
| "settle (Blocked b w) = w\<lparr>hub := Stuck b\<rparr>"
| "settle (Panic w) = w\<lparr>hub := Crashed\<rparr>"
| "settle (Undecided w) = w"

definition Run_step :: "int \<Rightarrow> world \<Rightarrow> world" where
  "Run_step now w =
     (case hub w of
        Got (RegisterEv client) \<Rightarrow> settle (registerClient now client w)
      | Got (UnregisterEv client) \<Rightarrow> settle (unregisterClient client w)
      | Got (BroadcastEv message) \<Rightarrow> settle (broadcastMessage message w)
      | _ \<Rightarrow> w)"

subsection \<open>HandleWebSocket\<close>

text \<open>
  The handler after a successful upgrade, on connection \<open>k\<close>; \<open>usernameMsg\<close> is the result of
  the first \<^verbatim>\<open>ReadMessage\<close>, \<open>None\<close> for a read error. Of the two pumps it starts at the
  end, the reader is \<open>ReadPump_msg\<close> and \<open>ReadPump_exit\<close> below; the writer, which moves the
  messages of the channel to the connection, is left out.
\<close>

fun taken_loop :: "string \<Rightarrow> Client list \<Rightarrow> bool option" where
  "taken_loop username [] = Some False"
| "taken_loop username (client # rest) =
     (case EqualFold (Username client) username of
        None \<Rightarrow> None
      | Some True \<Rightarrow> Some True
      | Some False \<Rightarrow> taken_loop username rest)"

definition usernameTaken :: "string \<Rightarrow> world \<Rightarrow> bool option" where
  "usernameTaken username w = taken_loop username (map fst (Clients w))"

definition taken_notice :: string where
  "taken_notice = ''ERROR: Username already taken. Please try again with a different name.''"

definition HandleWebSocket :: "nat \<Rightarrow> string option \<Rightarrow> world \<Rightarrow> outcome" where
  "HandleWebSocket k usernameMsg w =
     (case usernameMsg of
        None \<Rightarrow> Done (w\<lparr>conns := (conns w)(k := (conns w k)\<lparr>conn_closed := True\<rparr>)\<rparr>)
      | Some username \<Rightarrow>
          if Mutex w then Blocked LockMutex w
          else
            (case usernameTaken username w of
               None \<Rightarrow> Undecided w
             | Some True \<Rightarrow>
                 Done (w\<lparr>conns := (conns w)
                   (k := \<lparr>frames = frames (conns w k) @ [taken_notice], conn_closed = True\<rparr>)\<rparr>)
             | Some False \<Rightarrow>
                 hub_chan_send ConnG (RegisterEv \<lparr>Conn = k, Username = username\<rparr>)
                   (w\<lparr>chans := (chans w)(k := make_chan)\<rparr>)))"

subsection \<open>Durations\<close>

text \<open>
  \<^verbatim>\<open>time.Duration\<close> is a signed 64-bit count of nanoseconds. \<^verbatim>\<open>time.Since\<close> of a time with a
  monotonic reading subtracts the readings and saturates; \<^verbatim>\<open>Duration.Round\<close> rounds to the
  nearest multiple, halves away from zero, and saturates when the result overflows.
\<close>

definition Second :: int where
  "Second = 1000000000"

definition maxDuration :: int where
  "maxDuration = 2 ^ 63 - 1"

definition minDuration :: int where
  "minDuration = - (2 ^ 63)"

definition wrap64 :: "int \<Rightarrow> int" where
  "wrap64 x = (x + 2 ^ 63) mod 2 ^ 64 - 2 ^ 63"

definition Since :: "int \<Rightarrow> int \<Rightarrow> int" where
  "Since now t =
     (let d = wrap64 (now - t)
      in if d < 0 \<and> now > t then maxDuration
         else if d > 0 \<and> now < t then minDuration
         else d)"

text \<open>Go's \<^verbatim>\<open>%\<close> truncates towards zero.\<close>

definition go_rem :: "int \<Rightarrow> int \<Rightarrow> int" where
  "go_rem d m = (if d < 0 then - ((- d) mod \<bar>m\<bar>) else d mod \<bar>m\<bar>)"

definition Round :: "int \<Rightarrow> int \<Rightarrow> int" where
  "Round d m =
     (if m \<le> 0 then d
      else
        let r = go_rem d m in
        if d < 0 then
          (let r = - r in
           if r + r < m then d + r
           else (let d1 = wrap64 (d - m + r) in if d1 < d then d1 else minDuration))
        else if r + r < m then d - r
        else (let d1 = wrap64 (d + m - r) in if d1 > d then d1 else maxDuration))"

subsection \<open>GetClientList\<close>

text \<open>
  A missing key of \<^verbatim>\<open>ClientJoinTime\<close> reads as the zero \<^verbatim>\<open>Time\<close>, which has no monotonic
  reading and lies more than 292 years back: \<^verbatim>\<open>time.Since\<close> of it is the largest duration.
  \<open>D\<close> is \<^verbatim>\<open>Duration.String\<close>, the text the verb \<^verbatim>\<open>%s\<close> prints for a duration.
\<close>

definition since_join :: "int \<Rightarrow> world \<Rightarrow> Client \<Rightarrow> int" where
  "since_join now w client =
     (case map_of (ClientJoinTime w) client of
        Some t \<Rightarrow> Since now t
      | None \<Rightarrow> maxDuration)"

fun client_list_loop ::
  "(int \<Rightarrow> string) \<Rightarrow> int \<Rightarrow> world \<Rightarrow> Client list \<Rightarrow> string list \<Rightarrow> string list" where
  "client_list_loop D now w [] users = users"
| "client_list_loop D now w (client # rest) users =
     client_list_loop D now w rest
       (users @ [Username client @ '' (connected for '' @
                 D (Round (since_join now w client) Second) @ '')''])"

definition GetClientList :: "(int \<Rightarrow> string) \<Rightarrow> int \<Rightarrow> world \<Rightarrow> wait + string list" where
  "GetClientList D now w =
     (if Mutex w then Inl LockMutex
      else Inr (client_list_loop D now w (map fst (Clients w)) []))"

subsection \<open>handleCommand\<close>

text \<open>
  The readings of the clock a command may take: the monotonic reading, the text of
  \<^verbatim>\<open>time.Now().Format(time.RFC1123)\<close>, and \<^verbatim>\<open>Duration.String\<close>.
\<close>

record clock =
  mono_now :: int
  rfc1123 :: string
  dur_text :: "int \<Rightarrow> string"

definition newline :: char where
  "newline = CHR 0x0A"

definition helpMsg :: string where
  "helpMsg = concat (map (\<lambda>l. l @ [newline])
     [[],
      ''Available commands:'',
      ''/help - Show this help message'',
      ''/users - List all connected users'',
      ''/time - Show current server time'',
      ''/exit - Exit the chat'',
      ''/whisper <username> <message> - Send private message to a user''])"

fun users_lines :: "nat \<Rightarrow> string list \<Rightarrow> string \<Rightarrow> string" where
  "users_lines i [] msg = msg"
| "users_lines i (user # rest) msg =
     users_lines (Suc i) rest (msg @ itoa (i + 1) @ ''. '' @ user @ [newline])"

definition usersMsg :: "string list \<Rightarrow> string" where
  "usersMsg users =
     users_lines 0 users (''Connected users ('' @ itoa (length users) @ ''):'' @ [newline])"

fun find_client :: "string \<Rightarrow> Client list \<Rightarrow> Client option option" where
  "find_client name [] = Some None"
| "find_client name (client # rest) =
     (case EqualFold (Username client) name of
        None \<Rightarrow> None
      | Some True \<Rightarrow> Some (Some client)
      | Some False \<Rightarrow> find_client name rest)"

definition usage_notice :: string where
  "usage_notice = ''Usage: /whisper <username> <message>''"

definition not_found :: "string \<Rightarrow> string" where
  "not_found targetUsername =
     ''User '' @ [CHR 0x27] @ targetUsername @ [CHR 0x27] @ '' not found''"

definition unknown_command :: "string \<Rightarrow> string" where
  "unknown_command cmd = ''Unknown command: '' @ cmd @ ''. Type /help for available commands.''"

definition pm_from :: "string \<Rightarrow> string \<Rightarrow> string" where
  "pm_from sender message = ''[PM from '' @ sender @ '']: '' @ message"

definition pm_to :: "string \<Rightarrow> string \<Rightarrow> string" where
  "pm_to targetUsername message = ''[PM to '' @ targetUsername @ '']: '' @ message"

definition handleCommand :: "clock \<Rightarrow> Client \<Rightarrow> string \<Rightarrow> world \<Rightarrow> outcome" where
  "handleCommand clk c cmd w =
     (if cmd = ''/help'' then chan_send (Conn c) helpMsg w
      else if cmd = ''/users'' then
        (case GetClientList (dur_text clk) (mono_now clk) w of
           Inl b \<Rightarrow> Blocked b w
         | Inr users \<Rightarrow> chan_send (Conn c) (usersMsg users) w)
      else if cmd = ''/time'' then chan_send (Conn c) (''Server time: '' @ rfc1123 clk) w
      else if HasPrefix cmd ''/whisper '' then
        (let parts = SplitN2 (drop 9 cmd) in
         if length parts \<noteq> 2 then chan_send (Conn c) usage_notice w
         else
           let targetUsername = TrimSpace (parts ! 0);
               message = parts ! 1
           in if Mutex w then Blocked LockMutex w
              else
                (case find_client targetUsername (map fst (Clients w)) of
                   None \<Rightarrow> Undecided w
                 | Some None \<Rightarrow> chan_send (Conn c) (not_found targetUsername) w
                 | Some (Some targetClient) \<Rightarrow>
                     (case chan_send (Conn targetClient) (pm_from (Username c) message) w of
                        Done w1 \<Rightarrow> chan_send (Conn c) (pm_to targetUsername message) w1
                      | r \<Rightarrow> r)))
      else chan_send (Conn c) (unknown_command cmd) w)"

subsection \<open>ReadPump\<close>

text \<open>
  What \<^verbatim>\<open>ReadPump\<close> does with one message it has read, and what its deferred function does
  when a read fails.
\<close>

definition ReadPump_msg :: "clock \<Rightarrow> Client \<Rightarrow> string \<Rightarrow> world \<Rightarrow> outcome" where
  "ReadPump_msg clk c msgText w =
     (if HasPrefix msgText ''/'' then handleCommand clk c msgText w
      else hub_chan_send ConnG (BroadcastEv (Username c @ '': '' @ msgText)) w)"

definition ReadPump_exit :: "Client \<Rightarrow> world \<Rightarrow> outcome" where
  "ReadPump_exit c w =
     (case hub_chan_send ConnG (UnregisterEv c) w of
        Done w1 \<Rightarrow>
          Done (w1\<lparr>conns := (conns w1)(Conn c := (conns w1 (Conn c))\<lparr>conn_closed := True\<rparr>)\<rparr>)
      | r \<Rightarrow> r)"

subsection \<open>RunClient: the checks of the client program\<close>



text \<open>What the input loop of \<^verbatim>\<open>RunClient\<close> does with one line typed by the user.\<close>

datatype client_action = Skip | SendClose | SendText string

definition client_input :: "string \<Rightarrow> client_action" where
  "client_input message =
     (if TrimSpace message = [] then Skip
      else if message = ''/exit'' then SendClose
      else SendText message)"

subsection \<open>Notions used in the statements\<close>

definition registered :: "world \<Rightarrow> Client set" where
  "registered w = fst ` set (Clients w)"

definition queue :: "world \<Rightarrow> Client \<Rightarrow> string list" where
  "queue w c = buf (chans w (Conn c))"

text \<open>
  The state the handlers keep: registered clients wrap different connections, and the
  channel of a registered client is open.
\<close>

definition well_formed :: "world \<Rightarrow> bool" where
  "well_formed w = (distinct (map (Conn \<circ> fst) (Clients w)) \<and>
           list_all (\<lambda>p. \<not> is_closed (chans w (Conn (fst p)))) (Clients w))"

definition after_broadcast :: "string \<Rightarrow> chan \<Rightarrow> chan" where
  "after_broadcast m ch =
     (if length (buf ch) < SendCap then ch\<lparr>buf := buf ch @ [m]\<rparr> else ch\<lparr>is_closed := True\<rparr>)"

definition dropped :: "world \<Rightarrow> Client list \<Rightarrow> Client \<Rightarrow> bool" where
  "dropped w cs c = (c \<in> set cs \<and> \<not> length (buf (chans w (Conn c))) < SendCap)"

text \<open>The state an outcome carries, and the state after one message is appended to a queue.\<close>

fun world_of :: "outcome \<Rightarrow> world" where
  "world_of (Done w) = w"
| "world_of (Blocked b w) = w"
| "world_of (Panic w) = w"
| "world_of (Undecided w) = w"

definition deliver :: "nat \<Rightarrow> string \<Rightarrow> world \<Rightarrow> world" where
  "deliver k m w = w\<lparr>chans := (chans w)(k := (chans w k)\<lparr>buf := buf (chans w k) @ [m]\<rparr>)\<rparr>"

definition has_room :: "world \<Rightarrow> nat \<Rightarrow> bool" where
  "has_room w k = (\<not> is_closed (chans w k) \<and> length (buf (chans w k)) < SendCap)"




text \<open>What a command leaves alone: both maps, the mutex, the connections, the loop, and
  which channels are closed.\<close>

definition kept :: "world \<Rightarrow> world \<Rightarrow> bool" where
  "kept w w' =
     (Clients w' = Clients w \<and> ClientJoinTime w' = ClientJoinTime w \<and> Mutex w' = Mutex w \<and>
      conns w' = conns w \<and> hub w' = hub w \<and>
      (\<forall>k. is_closed (chans w' k) = is_closed (chans w k)))"

subsection \<open>The states a running server can be in\<close>

text \<open>
  The states reached from the fresh server by admissions, turns of the loop, messages
  read by the readers, failed reads, and the writers taking a message from a channel.
\<close>

inductive reachable :: "world \<Rightarrow> bool" where
  start: "reachable NewServer"
| admit: "reachable w \<Longrightarrow> HandleWebSocket k u w = Done w' \<Longrightarrow> reachable w'"
| turn: "reachable w \<Longrightarrow> reachable (Run_step now w)"
| read: "reachable w \<Longrightarrow> ReadPump_msg clk c t w = Done w' \<Longrightarrow> reachable w'"
| leave: "reachable w \<Longrightarrow> ReadPump_exit c w = Done w' \<Longrightarrow> reachable w'"
| drain: "reachable w \<Longrightarrow>
    reachable (w\<lparr>chans := (chans w)(k := (chans w k)\<lparr>buf := tl (buf (chans w k))\<rparr>)\<rparr>)"

text \<open>The two shapes of such a state: nobody registered and the mutex free, or one client
  registered and the loop parked with the mutex locked.\<close>

definition idle :: "world \<Rightarrow> bool" where
  "idle w = (Clients w = [] \<and> \<not> Mutex w)"

definition parked :: "world \<Rightarrow> bool" where
  "parked w =
     (length (Clients w) = 1 \<and> Mutex w \<and> ((\<exists>b. hub w = Stuck b) \<or> hub w = Crashed))"

subsection \<open>Example states\<close>

definition alice :: Client where
  "alice = \<lparr>Conn = 1, Username = ''alice''\<rparr>"

definition bob :: Client where
  "bob = \<lparr>Conn = 2, Username = ''bob''\<rparr>"

text \<open>A room of two: alice's queue is full, bob's is empty.\<close>

definition room :: world where
  "room = NewServer
     \<lparr>Clients := [(alice, True), (bob, True)],
      ClientJoinTime := [(alice, 0), (bob, 5 * Second)],
      chans := (\<lambda>_. make_chan)(1 := \<lparr>buf = replicate 256 ''x'', is_closed = False\<rparr>)\<rparr>"

text \<open>
  The fresh server after \<^verbatim>\<open>HandleWebSocket\<close> has read the name alice on connection 1 and
  handed the new client to \<^verbatim>\<open>Register\<close>.
\<close>

definition admitted :: world where
  "admitted = NewServer\<lparr>chans := (chans NewServer)(1 := make_chan), hub := Got (RegisterEv alice)\<rparr>"

text \<open>A room of two with empty queues.\<close>

definition lobby :: world where
  "lobby = NewServer
     \<lparr>Clients := [(alice, True), (bob, True)],
      ClientJoinTime := [(alice, 0), (bob, 5 * Second)]\<rparr>"

text \<open>
  A clock for the examples, 65 seconds after alice joined; its \<open>dur_text\<close> is what
  \<^verbatim>\<open>Duration.String\<close> prints for a whole number of seconds from 0 up.
\<close>

definition whole_seconds_text :: "int \<Rightarrow> string" where
  "whole_seconds_text d =
     (let s = nat (d div Second) in
      if s < 60 then itoa s @ ''s''
      else if s < 3600 then itoa (s div 60) @ ''m'' @ itoa (s mod 60) @ ''s''
      else itoa (s div 3600) @ ''h'' @ itoa (s div 60 mod 60) @ ''m'' @ itoa (s mod 60) @ ''s'')"

definition ex_clock :: clock where
  "ex_clock = \<lparr>mono_now = 65 * Second, rfc1123 = ''Sun, 01 Nov 2026 18:00:00 UTC'',
     dur_text = whole_seconds_text\<rparr>"

text \<open>The room of two with every queue full.\<close>

definition packed :: world where
  "packed = lobby\<lparr>chans := (\<lambda>_. \<lparr>buf = replicate 256 ''x'', is_closed = False\<rparr>)\<rparr>"

section \<open>Properties\<close>

subsection \<open>Strings\<close>

lemma strip_left_stop: "leading ps s = None \<Longrightarrow> strip_left ps s = s"
  by (simp add: strip_left.simps)

lemma strip_left_step:
  "leading ps s = Some p \<Longrightarrow> strip_left ps s = strip_left ps (drop (length p) s)"
  by (subst strip_left.simps) simp

lemmas TrimSpace_eval =
  TrimSpace_def strip_left_stop strip_left_step leading_def white_space_def

lemmas EqualFold_eval = ascii_def upper_of_def


subsection \<open>Broadcast\<close>

lemma broadcast_loop_Done:
  "distinct (map Conn cs) \<Longrightarrow> \<forall>c\<in>set cs. \<not> is_closed (chans w (Conn c)) \<Longrightarrow>
   \<exists>w'. broadcast_loop m cs w = Done w' \<and>
     (\<forall>k. chans w' k = (if k \<in> Conn ` set cs then after_broadcast m (chans w k) else chans w k)) \<and>
     Clients w' = filter (\<lambda>p. \<not> dropped w cs (fst p)) (Clients w) \<and>
     ClientJoinTime w' = filter (\<lambda>p. \<not> dropped w cs (fst p)) (ClientJoinTime w) \<and>
     Mutex w' = Mutex w \<and> conns w' = conns w \<and> hub w' = hub w"
proof (induction cs arbitrary: w)
  case Nil
  then show ?case by (simp add: dropped_def)
next
  case (Cons c cs)
  let ?ch = "chans w (Conn c)"
  have op: "\<not> is_closed ?ch" using Cons.prems by simp
  have fresh: "Conn c \<notin> Conn ` set cs" and dist: "distinct (map Conn cs)"
    using Cons.prems by auto
  have cnotin: "c \<notin> set cs" using fresh by auto
  have fresh': "\<forall>d\<in>set cs. Conn d \<noteq> Conn c" using fresh by (metis image_eqI)
  show ?case
  proof (cases "length (buf ?ch) < SendCap")
    case True
    let ?w1 = "w\<lparr>chans := (chans w)(Conn c := ?ch\<lparr>buf := buf ?ch @ [m]\<rparr>)\<rparr>"
    have step: "broadcast_loop m (c # cs) w = broadcast_loop m cs ?w1"
      using op True by (simp add: try_send_def)
    have open1: "\<forall>d\<in>set cs. \<not> is_closed (chans ?w1 (Conn d))"
      using Cons.prems(2) fresh' by auto
    from Cons.IH[OF dist open1] obtain w' where
      w': "broadcast_loop m cs ?w1 = Done w'"
        "\<forall>k. chans w' k = (if k \<in> Conn ` set cs then after_broadcast m (chans ?w1 k) else chans ?w1 k)"
        "Clients w' = filter (\<lambda>p. \<not> dropped ?w1 cs (fst p)) (Clients ?w1)"
        "ClientJoinTime w' = filter (\<lambda>p. \<not> dropped ?w1 cs (fst p)) (ClientJoinTime ?w1)"
        "Mutex w' = Mutex ?w1" "conns w' = conns ?w1" "hub w' = hub ?w1"
      by blast
    have dr: "\<And>d. dropped ?w1 cs d = dropped w (c # cs) d"
      using True fresh' by (auto simp: dropped_def)
    have ch: "\<forall>k. chans w' k = (if k \<in> Conn ` set (c # cs) then after_broadcast m (chans w k) else chans w k)"
      using w'(2) fresh' True by (auto simp: after_broadcast_def)
    have D: "broadcast_loop m (c # cs) w = Done w'" by (simp only: step w'(1))
    have C: "Clients w' = filter (\<lambda>p. \<not> dropped w (c # cs) (fst p)) (Clients w)"
      using w'(3) dr by simp
    have J: "ClientJoinTime w' = filter (\<lambda>p. \<not> dropped w (c # cs) (fst p)) (ClientJoinTime w)"
      using w'(4) dr by simp
    have M: "Mutex w' = Mutex w" "conns w' = conns w" "hub w' = hub w"
      using w'(5,6,7) by simp_all
    show ?thesis using D ch C J M by blast
  next
    case False
    let ?w1 = "w\<lparr>chans := (chans w)(Conn c := ?ch\<lparr>is_closed := True\<rparr>),
             Clients := AList.delete c (Clients w),
             ClientJoinTime := AList.delete c (ClientJoinTime w)\<rparr>"
    have step: "broadcast_loop m (c # cs) w = broadcast_loop m cs ?w1"
      using op False by (simp add: try_send_def)
    have open1: "\<forall>d\<in>set cs. \<not> is_closed (chans ?w1 (Conn d))"
      using Cons.prems(2) fresh' by auto
    from Cons.IH[OF dist open1] obtain w' where
      w': "broadcast_loop m cs ?w1 = Done w'"
        "\<forall>k. chans w' k = (if k \<in> Conn ` set cs then after_broadcast m (chans ?w1 k) else chans ?w1 k)"
        "Clients w' = filter (\<lambda>p. \<not> dropped ?w1 cs (fst p)) (Clients ?w1)"
        "ClientJoinTime w' = filter (\<lambda>p. \<not> dropped ?w1 cs (fst p)) (ClientJoinTime ?w1)"
        "Mutex w' = Mutex ?w1" "conns w' = conns ?w1" "hub w' = hub ?w1"
      by blast
    have dr: "\<And>d. d \<noteq> c \<Longrightarrow> dropped ?w1 cs d = dropped w (c # cs) d"
      using fresh' by (auto simp: dropped_def)
    have drc: "dropped w (c # cs) c" using False by (simp add: dropped_def)
    have ch: "\<forall>k. chans w' k = (if k \<in> Conn ` set (c # cs) then after_broadcast m (chans w k) else chans w k)"
      using w'(2) fresh' False by (auto simp: after_broadcast_def)
    have fl: "\<And>(al :: (Client \<times> 'v) list). filter (\<lambda>p. \<not> dropped ?w1 cs (fst p)) (AList.delete c al)
         = filter (\<lambda>p. \<not> dropped w (c # cs) (fst p)) al"
    proof -
      fix al :: "(Client \<times> 'v) list"
      show "filter (\<lambda>p. \<not> dropped ?w1 cs (fst p)) (AList.delete c al)
         = filter (\<lambda>p. \<not> dropped w (c # cs) (fst p)) al"
        using dr drc by (induction al) (auto simp: )
    qed
    have D: "broadcast_loop m (c # cs) w = Done w'" by (simp only: step w'(1))
    have C: "Clients w' = filter (\<lambda>p. \<not> dropped w (c # cs) (fst p)) (Clients w)"
      using w'(3) fl[of "Clients w"] by simp
    have J: "ClientJoinTime w' = filter (\<lambda>p. \<not> dropped w (c # cs) (fst p)) (ClientJoinTime w)"
      using w'(4) fl[of "ClientJoinTime w"] by simp
    have M: "Mutex w' = Mutex w" "conns w' = conns w" "hub w' = hub w"
      using w'(5,6,7) by simp_all
    show ?thesis using D ch C J M by blast
  qed
qed


lemma broadcastMessage_Done:
  assumes "well_formed w" and "\<not> Mutex w"
  shows "\<exists>w'. broadcastMessage m w = Done w' \<and>
     (\<forall>k. chans w' k = (if k \<in> Conn ` registered w then after_broadcast m (chans w k) else chans w k)) \<and>
     Clients w' = filter (\<lambda>p. length (queue w (fst p)) < SendCap) (Clients w) \<and>
     ClientJoinTime w' = filter (\<lambda>p. \<not> dropped w (map fst (Clients w)) (fst p)) (ClientJoinTime w) \<and>
     Mutex w' = False \<and> conns w' = conns w \<and> hub w' = hub w"
proof -
  let ?cs = "map fst (Clients w)"
  let ?w0 = "w\<lparr>Mutex := True\<rparr>"
  have d: "distinct (map Conn ?cs)" using assms(1) by (simp add: well_formed_def)
  have o: "\<forall>c\<in>set ?cs. \<not> is_closed (chans ?w0 (Conn c))"
    using assms(1) by (auto simp: well_formed_def list_all_iff)
  from broadcast_loop_Done[OF d o, of m] obtain w1 where
    w1: "broadcast_loop m ?cs ?w0 = Done w1"
      "\<forall>k. chans w1 k = (if k \<in> Conn ` set ?cs then after_broadcast m (chans ?w0 k) else chans ?w0 k)"
      "Clients w1 = filter (\<lambda>p. \<not> dropped ?w0 ?cs (fst p)) (Clients ?w0)"
      "ClientJoinTime w1 = filter (\<lambda>p. \<not> dropped ?w0 ?cs (fst p)) (ClientJoinTime ?w0)"
      "Mutex w1 = Mutex ?w0" "conns w1 = conns ?w0" "hub w1 = hub ?w0"
    by blast
  have R: "broadcastMessage m w = Done (w1\<lparr>Mutex := False\<rparr>)"
    using assms(2) w1(1) by (simp add: broadcastMessage_def)
  have C: "filter (\<lambda>p. \<not> dropped ?w0 ?cs (fst p)) (Clients w)
         = filter (\<lambda>p. length (queue w (fst p)) < SendCap) (Clients w)"
    by (rule filter_cong) (auto simp: dropped_def queue_def)
  have J: "\<And>d. dropped ?w0 ?cs d = dropped w ?cs d" by (simp add: dropped_def)
  show ?thesis
    apply (rule exI[of _ "w1\<lparr>Mutex := False\<rparr>"])
    using R w1(2-7) C J by (simp add: registered_def image_image)
qed


lemma map_of_filter_key:
  "map_of (filter (\<lambda>p. P (fst p)) al) k = (if P k then map_of al k else None)"
  by (induction al) auto

lemma wf_inj: "well_formed w \<Longrightarrow> c \<in> registered w \<Longrightarrow> d \<in> registered w \<Longrightarrow> Conn c = Conn d \<Longrightarrow> c = d"
proof -
  assume a: "well_formed w" "c \<in> registered w" "d \<in> registered w" "Conn c = Conn d"
  have "distinct (map Conn (map fst (Clients w)))" using a(1) by (simp add: well_formed_def)
  then have "inj_on Conn (set (map fst (Clients w)))" by (simp only: distinct_map)
  then show "c = d" using a(2-4) by (auto simp: registered_def inj_on_def)
qed

lemma broadcastMessage_wf:
  assumes "well_formed w" and "broadcastMessage m w = Done w'" and "\<not> Mutex w"
  shows "well_formed w'"
proof -
  from broadcastMessage_Done[OF assms(1,3), of m] assms(2)
  have ch: "\<forall>k. chans w' k = (if k \<in> Conn ` registered w then after_broadcast m (chans w k) else chans w k)"
    and cl: "Clients w' = filter (\<lambda>p. length (queue w (fst p)) < SendCap) (Clients w)"
    by auto
  have d: "distinct (map (Conn \<circ> fst) (Clients w'))"
    using assms(1) by (simp add: cl well_formed_def distinct_map_filter)
  have o: "list_all (\<lambda>p. \<not> is_closed (chans w' (Conn (fst p)))) (Clients w')"
    using assms(1) by (auto simp: cl ch well_formed_def list_all_iff after_broadcast_def queue_def registered_def)
  show ?thesis using d o by (simp add: well_formed_def)
qed

text \<open>
  C1. A broadcast of \<open>M1\<close> followed by a broadcast of \<open>M2\<close>, in a state where the registered
  clients have open channels on different connections and the mutex is free. Both calls
  return. Every registered client whose queue has room gets \<open>M1\<close> appended at the tail of
  its queue, stays registered and keeps its join time; with room for two it then holds
  \<open>M1\<close> followed by \<open>M2\<close>, the order of the calls. Every registered client whose queue is
  full is removed from \<open>Clients\<close> and \<open>ClientJoinTime\<close> by the first call, its channel is
  closed with the buffer as it was (no announcement is queued for it or about it), and the
  next broadcast leaves that channel untouched.
\<close>

theorem C1_broadcast_fanout:
  assumes "well_formed w" and "\<not> Mutex w"
  shows "\<exists>w1 w2. broadcastMessage M1 w = Done w1 \<and> broadcastMessage M2 w1 = Done w2 \<and>
     registered w1 \<subseteq> registered w \<and>
     (\<forall>c \<in> registered w.
        (length (queue w c) < SendCap \<longrightarrow>
           c \<in> registered w1 \<and> queue w1 c = queue w c @ [M1] \<and>
           \<not> is_closed (chans w1 (Conn c)) \<and>
           map_of (ClientJoinTime w1) c = map_of (ClientJoinTime w) c) \<and>
        (Suc (length (queue w c)) < SendCap \<longrightarrow>
           c \<in> registered w2 \<and> queue w2 c = queue w c @ [M1, M2]) \<and>
        (SendCap \<le> length (queue w c) \<longrightarrow>
           c \<notin> registered w1 \<and> c \<notin> fst ` set (ClientJoinTime w1) \<and>
           chans w1 (Conn c) = (chans w (Conn c))\<lparr>is_closed := True\<rparr> \<and>
           c \<notin> registered w2 \<and> chans w2 (Conn c) = chans w1 (Conn c)))"
proof -
  from broadcastMessage_Done[OF assms, of M1] obtain w1 where
    w1: "broadcastMessage M1 w = Done w1"
      "\<forall>k. chans w1 k = (if k \<in> Conn ` registered w then after_broadcast M1 (chans w k) else chans w k)"
      "Clients w1 = filter (\<lambda>p. length (queue w (fst p)) < SendCap) (Clients w)"
      "ClientJoinTime w1 = filter (\<lambda>p. \<not> dropped w (map fst (Clients w)) (fst p)) (ClientJoinTime w)"
      "Mutex w1 = False"
    by blast
  have wf1: "well_formed w1" using broadcastMessage_wf[OF assms(1) w1(1) assms(2)] .
  have m1: "\<not> Mutex w1" using w1(5) by simp
  from broadcastMessage_Done[OF wf1 m1, of M2] obtain w2 where
    w2: "broadcastMessage M2 w1 = Done w2"
      "\<forall>k. chans w2 k = (if k \<in> Conn ` registered w1 then after_broadcast M2 (chans w1 k) else chans w1 k)"
      "Clients w2 = filter (\<lambda>p. length (queue w1 (fst p)) < SendCap) (Clients w1)"
    by blast
  have sub: "registered w1 \<subseteq> registered w" by (auto simp: registered_def w1(3))
  have reg1: "\<And>c. c \<in> registered w1 \<longleftrightarrow> c \<in> registered w \<and> length (queue w c) < SendCap"
    by (auto simp: registered_def w1(3))
  have reg2: "\<And>c. c \<in> registered w2 \<longleftrightarrow> c \<in> registered w1 \<and> length (queue w1 c) < SendCap"
    by (auto simp: registered_def w2(3))
  have main: "\<And>c. c \<in> registered w \<Longrightarrow>
        (length (queue w c) < SendCap \<longrightarrow>
           c \<in> registered w1 \<and> queue w1 c = queue w c @ [M1] \<and>
           \<not> is_closed (chans w1 (Conn c)) \<and>
           map_of (ClientJoinTime w1) c = map_of (ClientJoinTime w) c) \<and>
        (Suc (length (queue w c)) < SendCap \<longrightarrow>
           c \<in> registered w2 \<and> queue w2 c = queue w c @ [M1, M2]) \<and>
        (SendCap \<le> length (queue w c) \<longrightarrow>
           c \<notin> registered w1 \<and> c \<notin> fst ` set (ClientJoinTime w1) \<and>
           chans w1 (Conn c) = (chans w (Conn c))\<lparr>is_closed := True\<rparr> \<and>
           c \<notin> registered w2 \<and> chans w2 (Conn c) = chans w1 (Conn c))"
  proof -
    fix c assume c: "c \<in> registered w"
    have op: "\<not> is_closed (chans w (Conn c))"
      using assms(1) c by (auto simp: well_formed_def list_all_iff registered_def)
    have ch1: "chans w1 (Conn c) = after_broadcast M1 (chans w (Conn c))"
      using w1(2) c by auto
    show "(length (queue w c) < SendCap \<longrightarrow>
           c \<in> registered w1 \<and> queue w1 c = queue w c @ [M1] \<and>
           \<not> is_closed (chans w1 (Conn c)) \<and>
           map_of (ClientJoinTime w1) c = map_of (ClientJoinTime w) c) \<and>
        (Suc (length (queue w c)) < SendCap \<longrightarrow>
           c \<in> registered w2 \<and> queue w2 c = queue w c @ [M1, M2]) \<and>
        (SendCap \<le> length (queue w c) \<longrightarrow>
           c \<notin> registered w1 \<and> c \<notin> fst ` set (ClientJoinTime w1) \<and>
           chans w1 (Conn c) = (chans w (Conn c))\<lparr>is_closed := True\<rparr> \<and>
           c \<notin> registered w2 \<and> chans w2 (Conn c) = chans w1 (Conn c))"
    proof (intro conjI impI)
      assume r: "length (queue w c) < SendCap"
      show "c \<in> registered w1" using reg1 c r by simp
      show "queue w1 c = queue w c @ [M1]" using ch1 r by (simp add: queue_def after_broadcast_def)
      show "\<not> is_closed (chans w1 (Conn c))" using ch1 r op by (simp add: queue_def after_broadcast_def)
      have "\<not> dropped w (map fst (Clients w)) c" using r by (simp add: dropped_def queue_def)
      then show "map_of (ClientJoinTime w1) c = map_of (ClientJoinTime w) c"
        using map_of_filter_key[of "\<lambda>k. \<not> dropped w (map fst (Clients w)) k" "ClientJoinTime w" c]
        by (simp add: w1(4))
    next
      assume r: "Suc (length (queue w c)) < SendCap"
      then have r0: "length (queue w c) < SendCap" by simp
      have q1: "queue w1 c = queue w c @ [M1]" using ch1 r0 by (simp add: queue_def after_broadcast_def)
      have c1: "c \<in> registered w1" using reg1 c r0 by simp
      have r1: "length (queue w1 c) < SendCap" using q1 r by simp
      show "c \<in> registered w2" using reg2 c1 r1 by simp
      have "chans w2 (Conn c) = after_broadcast M2 (chans w1 (Conn c))" using w2(2) c1 by auto
      then show "queue w2 c = queue w c @ [M1, M2]"
        using q1 r1 by (simp add: queue_def after_broadcast_def)
    next
      assume f: "SendCap \<le> length (queue w c)"
      show n1: "c \<notin> registered w1" using reg1 f by simp
      have dr: "dropped w (map fst (Clients w)) c"
        using c f by (simp add: dropped_def queue_def registered_def)
      show "c \<notin> fst ` set (ClientJoinTime w1)" using dr by (auto simp: w1(4))
      show "chans w1 (Conn c) = (chans w (Conn c))\<lparr>is_closed := True\<rparr>"
        using ch1 f by (simp add: queue_def after_broadcast_def)
      show "c \<notin> registered w2" using reg2 n1 by simp
      have "Conn c \<notin> Conn ` registered w1"
      proof
        assume "Conn c \<in> Conn ` registered w1"
        then obtain d where d: "d \<in> registered w1" "Conn c = Conn d" by auto
        then have "d \<in> registered w" using sub by auto
        then have "c = d" using wf_inj[OF assms(1) c _ d(2)] by simp
        then show False using d(1) n1 by simp
      qed
      then show "chans w2 (Conn c) = chans w1 (Conn c)" using w2(2) by simp
    qed
  qed
  show ?thesis
    using w1(1) w2(1) sub main by blast
qed

theorem C1_broadcast_fanout_witness:
  "well_formed room \<and> \<not> Mutex room \<and>
   (\<exists>w1 w2. broadcastMessage ''hello'' room = Done w1 \<and>
      broadcastMessage ''again'' w1 = Done w2 \<and>
      queue w1 bob = [''hello''] \<and> queue w2 bob = [''hello'', ''again''] \<and>
      bob \<in> registered w2 \<and>
      alice \<notin> registered w1 \<and> is_closed (chans w1 1) \<and>
      queue w2 alice = replicate 256 ''x'')"
proof -
  have h1: "well_formed room"
    by (simp add: well_formed_def room_def NewServer_def alice_def bob_def make_chan_def)
  have h2: "\<not> Mutex room" by (simp add: room_def NewServer_def)
  have ra: "alice \<in> registered room" and rb: "bob \<in> registered room"
    by (simp_all add: registered_def room_def NewServer_def)
  have qa: "SendCap \<le> length (queue room alice)"
    by (simp add: queue_def room_def NewServer_def alice_def SendCap_def)
  have qb: "queue room bob = []"
    by (simp add: queue_def room_def NewServer_def bob_def make_chan_def)
  have ca: "chans room 1 = \<lparr>buf = replicate 256 ''x'', is_closed = False\<rparr>"
    by (simp add: room_def NewServer_def)
  from C1_broadcast_fanout[OF h1 h2, of "''hello''" "''again''"] obtain w1 w2 where
    r: "broadcastMessage ''hello'' room = Done w1" "broadcastMessage ''again'' w1 = Done w2"
    and a: "\<forall>c\<in>registered room.
        (length (queue room c) < SendCap \<longrightarrow>
           c \<in> registered w1 \<and> queue w1 c = queue room c @ [''hello''] \<and>
           \<not> is_closed (chans w1 (Conn c)) \<and>
           map_of (ClientJoinTime w1) c = map_of (ClientJoinTime room) c) \<and>
        (Suc (length (queue room c)) < SendCap \<longrightarrow>
           c \<in> registered w2 \<and> queue w2 c = queue room c @ [''hello'', ''again'']) \<and>
        (SendCap \<le> length (queue room c) \<longrightarrow>
           c \<notin> registered w1 \<and> c \<notin> fst ` set (ClientJoinTime w1) \<and>
           chans w1 (Conn c) = (chans room (Conn c))\<lparr>is_closed := True\<rparr> \<and>
           c \<notin> registered w2 \<and> chans w2 (Conn c) = chans w1 (Conn c))"
    by blast
  have b1: "queue w1 bob = [''hello'']" "queue w2 bob = [''hello'', ''again'']" "bob \<in> registered w2"
    using a rb qb by (auto simp: SendCap_def)
  have a1: "alice \<notin> registered w1" "chans w1 (Conn alice) = (chans room (Conn alice))\<lparr>is_closed := True\<rparr>"
    "chans w2 (Conn alice) = chans w1 (Conn alice)"
    using a ra qa by auto
  have a2: "is_closed (chans w1 1)" "queue w2 alice = replicate 256 ''x''"
    using a1(2,3) ca by (simp_all add: alice_def queue_def)
  show ?thesis using h1 h2 r b1 a1(1) a2 by blast
qed

subsection \<open>Registration and unregistration\<close>

lemma registerClient_parks:
  assumes "\<not> Mutex w" and "\<not> is_closed (chans w (Conn c))"
    and "length (buf (chans w (Conn c))) < SendCap"
  shows "registerClient now c w =
    Blocked (HubChan (BroadcastEv (''*** '' @ Username c @ '' joined the chat ***'')))
      (w\<lparr>Mutex := True,
         Clients := AList.update c True (Clients w),
         ClientJoinTime := AList.update c now (ClientJoinTime w),
         chans := (chans w)(Conn c := (chans w (Conn c))
           \<lparr>buf := buf (chans w (Conn c)) @
              [''Welcome '' @ Username c @ ''! There are '' @
               itoa (length (AList.update c True (Clients w))) @
               '' users online. Type /help for available commands.'']\<rparr>)\<rparr>)"
  using assms by (simp add: registerClient_def chan_send_def try_send_def Let_def)

lemma registerClient_never_returns: "registerClient now c w \<noteq> Done w'"
  by (auto simp: registerClient_def chan_send_def try_send_def Let_def split: if_splits)

lemma unregisterClient_present_never_returns:
  "c \<in> registered w \<Longrightarrow> unregisterClient c w \<noteq> Done w'"
  by (auto simp: unregisterClient_def close_chan_def registered_def split: if_splits)

lemma unregisterClient_absent:
  "c \<notin> registered w \<Longrightarrow> \<not> Mutex w \<Longrightarrow> unregisterClient c w = Done w"
  by (simp add: unregisterClient_def registered_def)

lemma stuck_stays: "hub w = Stuck b \<Longrightarrow> Run_step now w = w"
  by (simp add: Run_step_def)

lemma stuck_refuses: "hub w = Stuck b \<Longrightarrow> hub_chan_send ConnG ev w = Blocked (HubChan ev) w"
  by simp

lemma admit_alice: "HandleWebSocket 1 (Some ''alice'') NewServer = Done admitted"
  by (simp add: HandleWebSocket_def NewServer_def usernameTaken_def admitted_def alice_def)

lemma admitted_step:
  "Run_step now admitted = admitted
     \<lparr>Mutex := True, Clients := [(alice, True)], ClientJoinTime := [(alice, now)],
      chans := (chans admitted)(1 := \<lparr>buf = [''Welcome alice! There are 1 users online. Type /help for available commands.''], is_closed = False\<rparr>),
      hub := Stuck (HubChan (BroadcastEv ''*** alice joined the chat ***''))\<rparr>"
proof -
  have a: "\<not> Mutex admitted" "\<not> is_closed (chans admitted (Conn alice))"
     "length (buf (chans admitted (Conn alice))) < SendCap"
    by (simp_all add: admitted_def NewServer_def alice_def make_chan_def SendCap_def)
  have h: "hub admitted = Got (RegisterEv alice)" by (simp add: admitted_def)
  have i: "itoa (Suc 0) = ''1''" by (simp add: itoa.simps digit_def)
  show ?thesis
    unfolding Run_step_def h
    by (simp add: registerClient_parks[OF a])
       (simp add: admitted_def NewServer_def alice_def make_chan_def i)
qed

text \<open>
  C2. The first registration on a fresh server. \<^verbatim>\<open>HandleWebSocket\<close> hands the client to the
  loop; \<^verbatim>\<open>registerClient\<close> inserts it, records the join time and queues the welcome notice
  with the count 1. Then the loop parks at its own send of the join announcement: the
  announcement is in no queue, the mutex stays locked, and further turns of the loop change
  nothing.
\<close>

theorem C2_register_parks_before_announcing:
  "HandleWebSocket 1 (Some ''alice'') NewServer = Done admitted \<and>
   Clients (Run_step 7 admitted) = [(alice, True)] \<and>
   ClientJoinTime (Run_step 7 admitted) = [(alice, 7)] \<and>
   queue (Run_step 7 admitted) alice =
     [''Welcome alice! There are 1 users online. Type /help for available commands.''] \<and>
   hub (Run_step 7 admitted) = Stuck (HubChan (BroadcastEv ''*** alice joined the chat ***'')) \<and>
   Mutex (Run_step 7 admitted) \<and>
   Run_step 8 (Run_step 7 admitted) = Run_step 7 admitted"
  using admit_alice by (simp add: admitted_step queue_def alice_def stuck_stays)

text \<open>
  C3. After the admission of alice on a fresh server the loop is parked inside
  \<^verbatim>\<open>registerClient\<close> with the mutex locked. The admission of bob parks at the lock of the
  name check and bob is not registered; the admission of the case variant ALICE parks at
  the same lock, and its connection has received no notice and is not closed.
\<close>

theorem C3_second_admission_parks:
  "HandleWebSocket 1 (Some ''alice'') NewServer = Done admitted \<and>
   alice \<in> registered (Run_step 7 admitted) \<and>
   HandleWebSocket 2 (Some ''bob'') (Run_step 7 admitted) = Blocked LockMutex (Run_step 7 admitted) \<and>
   bob \<notin> registered (Run_step 7 admitted) \<and>
   HandleWebSocket 3 (Some ''ALICE'') (Run_step 7 admitted) = Blocked LockMutex (Run_step 7 admitted) \<and>
   conns (Run_step 7 admitted) 3 = \<lparr>frames = [], conn_closed = False\<rparr>"
  using admit_alice
  by (simp add: admitted_step HandleWebSocket_def registered_def)
     (simp add: admitted_def NewServer_def alice_def bob_def)

text \<open>
  C6. The unregistration of bob in a room of alice and bob: bob leaves both maps and his
  channel is closed, then the loop parks at its own send of the leave announcement, which
  reaches no queue (alice's stays empty), with the mutex locked. And on the server whose
  loop is parked after alice's registration, the request of alice's reader to unregister
  her is never received: she stays registered and her channel stays open.
\<close>

theorem C6_unregister_parks_before_announcing:
  "bob \<in> registered lobby \<and>
   Clients (Run_step 9 (lobby\<lparr>hub := Got (UnregisterEv bob)\<rparr>)) = [(alice, True)] \<and>
   ClientJoinTime (Run_step 9 (lobby\<lparr>hub := Got (UnregisterEv bob)\<rparr>)) = [(alice, 0)] \<and>
   is_closed (chans (Run_step 9 (lobby\<lparr>hub := Got (UnregisterEv bob)\<rparr>)) 2) \<and>
   queue (Run_step 9 (lobby\<lparr>hub := Got (UnregisterEv bob)\<rparr>)) alice = [] \<and>
   hub (Run_step 9 (lobby\<lparr>hub := Got (UnregisterEv bob)\<rparr>)) =
     Stuck (HubChan (BroadcastEv ''*** bob left the chat ***'')) \<and>
   Mutex (Run_step 9 (lobby\<lparr>hub := Got (UnregisterEv bob)\<rparr>)) \<and>
   ReadPump_exit alice (Run_step 7 admitted) =
     Blocked (HubChan (UnregisterEv alice)) (Run_step 7 admitted) \<and>
   alice \<in> registered (Run_step 7 admitted) \<and>
   \<not> is_closed (chans (Run_step 7 admitted) 1)"
proof -
  have never: "ReadPump_exit alice (Run_step 7 admitted) =
     Blocked (HubChan (UnregisterEv alice)) (Run_step 7 admitted) \<and>
   alice \<in> registered (Run_step 7 admitted) \<and>
   \<not> is_closed (chans (Run_step 7 admitted) 1)"
    by (simp add: ReadPump_exit_def admitted_step registered_def)
  have reg: "bob \<in> registered lobby"
    by (simp add: registered_def lobby_def)
  have step: "Run_step 9 (lobby\<lparr>hub := Got (UnregisterEv bob)\<rparr>) =
     lobby\<lparr>Mutex := True, Clients := [(alice, True)], ClientJoinTime := [(alice, 0)],
           chans := (chans lobby)(2 := \<lparr>buf = [], is_closed = True\<rparr>),
           hub := Stuck (HubChan (BroadcastEv ''*** bob left the chat ***''))\<rparr>"
    by (simp add: Run_step_def unregisterClient_def close_chan_def lobby_def NewServer_def
        alice_def bob_def make_chan_def)
  have q: "queue (lobby\<lparr>Mutex := True, Clients := [(alice, True)], ClientJoinTime := [(alice, 0)],
           chans := (chans lobby)(2 := \<lparr>buf = [], is_closed = True\<rparr>),
           hub := Stuck (HubChan (BroadcastEv ''*** bob left the chat ***''))\<rparr>) alice = []"
    by (simp add: queue_def alice_def lobby_def NewServer_def make_chan_def)
  show ?thesis
    unfolding step using never reg q by simp
qed

subsection \<open>Commands: the listing\<close>

lemma chan_send_room: "has_room w k \<Longrightarrow> chan_send k m w = Done (deliver k m w)"
  by (simp add: chan_send_def try_send_def has_room_def deliver_def)













lemma lobby_wf: "well_formed lobby"
  by (simp add: well_formed_def lobby_def NewServer_def alice_def bob_def make_chan_def)

lemma lobby_room: "has_room lobby k"
  by (simp add: has_room_def lobby_def NewServer_def make_chan_def SendCap_def)


subsection \<open>Commands: what they leave alone, and /exit\<close>

lemma kept_refl: "kept w w"
  by (simp add: kept_def)

lemma kept_trans: "kept w w1 \<Longrightarrow> kept w1 w2 \<Longrightarrow> kept w w2"
  by (simp add: kept_def)

lemma chan_send_kept: "kept w (world_of (chan_send k m w))"
  by (simp add: chan_send_def try_send_def kept_def)

lemma chan_send_Done_kept: "chan_send k m w = Done w1 \<Longrightarrow> kept w w1"
  using chan_send_kept[of w k m] by simp

lemma handleCommand_kept: "kept w (world_of (handleCommand clk c cmd w))"
proof -
  have two: "\<And>k1 m1 k2 m2. kept w (world_of (case chan_send k1 m1 w of
       Done w1 \<Rightarrow> chan_send k2 m2 w1 | r \<Rightarrow> r))"
  proof -
    fix k1 m1 k2 m2
    show "kept w (world_of (case chan_send k1 m1 w of
       Done w1 \<Rightarrow> chan_send k2 m2 w1 | r \<Rightarrow> r))"
    proof (cases "chan_send k1 m1 w")
      case (Done w1)
      then have "kept w w1" by (rule chan_send_Done_kept)
      moreover have "kept w1 (world_of (chan_send k2 m2 w1))" by (rule chan_send_kept)
      ultimately show ?thesis using Done by (simp add: kept_trans)
    next
      case (Blocked b w1)
      then show ?thesis using chan_send_kept[of w k1 m1] by simp
    next
      case (Panic w1)
      then show ?thesis using chan_send_kept[of w k1 m1] by simp
    next
      case (Undecided w1)
      then show ?thesis using chan_send_kept[of w k1 m1] by simp
    qed
  qed
  show ?thesis
    unfolding handleCommand_def Let_def
    by (simp add: chan_send_kept kept_refl two GetClientList_def split: option.split sum.split)
qed

text \<open>
  C10. The text \<^verbatim>\<open>/exit\<close> read from a client whose queue has room goes to the command
  interpreter, which matches none of its commands and queues the unknown-command notice
  for the sender; both maps, the connection, the loop and the open channels stay as they
  were, so the session is neither disconnected nor unregistered. The reply to \<^verbatim>\<open>/help\<close>
  nevertheless has the line \<^verbatim>\<open>/exit - Exit the chat\<close>. The client program does not send the
  text at all: on the line \<^verbatim>\<open>/exit\<close> it sends a close frame.
\<close>

theorem C10_exit_is_an_unknown_command:
  assumes "has_room w (Conn c)"
  shows "handleCommand clk c ''/exit'' w =
       Done (deliver (Conn c)
         ''Unknown command: /exit. Type /help for available commands.'' w) \<and>
     kept w (deliver (Conn c) ''Unknown command: /exit. Type /help for available commands.'' w) \<and>
     ReadPump_msg clk c ''/exit'' w = handleCommand clk c ''/exit'' w \<and>
     handleCommand clk c ''/help'' w = Done (deliver (Conn c) helpMsg w) \<and>
     (\<exists>pre post. helpMsg = pre @ ''/exit - Exit the chat'' @ [newline] @ post) \<and>
     client_input ''/exit'' = SendClose"
proof -
  have a: "handleCommand clk c ''/exit'' w =
       Done (deliver (Conn c)
         ''Unknown command: /exit. Type /help for available commands.'' w)"
    using chan_send_room[OF assms]
    by (simp add: handleCommand_def HasPrefix_def unknown_command_def)
  have b: "kept w (deliver (Conn c) ''Unknown command: /exit. Type /help for available commands.'' w)"
    using handleCommand_kept[of w clk c "''/exit''"] unfolding a by simp
  have r: "ReadPump_msg clk c ''/exit'' w = handleCommand clk c ''/exit'' w"
    by (simp add: ReadPump_msg_def HasPrefix_def)
  have h: "handleCommand clk c ''/help'' w = Done (deliver (Conn c) helpMsg w)"
    using chan_send_room[OF assms] by (simp add: handleCommand_def)
  have l: "helpMsg = ([newline] @ ''Available commands:'' @ [newline] @
      ''/help - Show this help message'' @ [newline] @
      ''/users - List all connected users'' @ [newline] @
      ''/time - Show current server time'' @ [newline]) @
      ''/exit - Exit the chat'' @ [newline] @
      (''/whisper <username> <message> - Send private message to a user'' @ [newline])"
    by (simp add: helpMsg_def)
  have e: "\<exists>pre post. helpMsg = pre @ ''/exit - Exit the chat'' @ [newline] @ post"
    using l by blast
  have ci: "client_input ''/exit'' = SendClose"
    by (simp add: client_input_def TrimSpace_eval)
  show ?thesis using a b r h e ci by blast
qed

theorem C10_exit_is_an_unknown_command_witness:
  "has_room lobby (Conn alice) \<and>
   handleCommand ex_clock alice ''/exit'' lobby =
     Done (deliver 1 ''Unknown command: /exit. Type /help for available commands.'' lobby) \<and>
   registered (deliver 1 ''Unknown command: /exit. Type /help for available commands.'' lobby) = {alice, bob} \<and>
   client_input ''/exit'' = SendClose"
proof -
  have ca: "Conn alice = 1" by (simp add: alice_def)
  have rg: "registered (deliver 1 ''Unknown command: /exit. Type /help for available commands.'' lobby) = {alice, bob}"
    by (simp add: registered_def deliver_def lobby_def NewServer_def)
  show ?thesis
    using C10_exit_is_an_unknown_command[where w=lobby and c=alice and clk=ex_clock, OF lobby_room]
      lobby_room[of "Conn alice"] rg
    unfolding ca by blast
qed

subsection \<open>Commands: /whisper\<close>











text \<open>
  A target that is the Kelvin sign (U+212A), with a client named k registered: the
  comparison needs the Unicode tables, and the outcome is left open.
\<close>

lemma whisper_beyond_ascii:
  "handleCommand ex_clock alice (''/whisper '' @ [CHR 0xE2, CHR 0x84, CHR 0xAA] @ '' hi'')
     (lobby\<lparr>Clients := [(\<lparr>Conn = 5, Username = ''k''\<rparr>, True)]\<rparr>) =
   Undecided (lobby\<lparr>Clients := [(\<lparr>Conn = 5, Username = ''k''\<rparr>, True)]\<rparr>)"
  by (simp add: handleCommand_def HasPrefix_def SplitN2_def TrimSpace_eval EqualFold_eval
      lobby_def NewServer_def)

subsection \<open>The reader\<close>

lemma Run_step_broadcast:
  assumes "well_formed w" and "\<not> Mutex w" and "hub w = Got (BroadcastEv m)"
  shows "\<forall>x \<in> registered w. has_room w (Conn x) \<longrightarrow> queue (Run_step now w) x = queue w x @ [m]"
proof -
  from broadcastMessage_Done[OF assms(1,2), of m] obtain w' where
    w': "broadcastMessage m w = Done w'"
      "\<forall>k. chans w' k = (if k \<in> Conn ` registered w then after_broadcast m (chans w k) else chans w k)"
    by blast
  have r: "Run_step now w = w'\<lparr>hub := AtSelect\<rparr>"
    using assms(3) w'(1) by (simp add: Run_step_def)
  show ?thesis
    using w'(2) by (auto simp: r queue_def has_room_def after_broadcast_def)
qed

text \<open>
  C5. One message \<open>t\<close> read by the reader of client \<open>c\<close>. When \<open>t\<close> starts with \<^verbatim>\<open>/\<close> it is
  given to \<^verbatim>\<open>handleCommand\<close> with \<open>c\<close>, and nothing is handed to the loop: both maps and the
  loop stay as they were. Every other \<open>t\<close>, the empty and the blank ones too, is wrapped as
  the name of \<open>c\<close>, a colon, a space and \<open>t\<close>, and sent on \<^verbatim>\<open>Broadcast\<close>: the loop takes it when
  it is at its select, and its next turn appends it to the queue of every registered
  client with room; when the loop is not at its select the reader parks at the send. Only
  the client program skips a line that is empty after trimming.
\<close>

theorem C5_reader_dispatch:
  "(HasPrefix t ''/'' \<longrightarrow>
      ReadPump_msg clk c t w = handleCommand clk c t w \<and>
      kept w (world_of (ReadPump_msg clk c t w))) \<and>
   (\<not> HasPrefix t ''/'' \<and> hub w = AtSelect \<longrightarrow>
      ReadPump_msg clk c t w = Done (w\<lparr>hub := Got (BroadcastEv (Username c @ '': '' @ t))\<rparr>)) \<and>
   (\<not> HasPrefix t ''/'' \<and> hub w = AtSelect \<and> well_formed w \<and> \<not> Mutex w \<longrightarrow>
      (\<forall>x \<in> registered w. has_room w (Conn x) \<longrightarrow>
         queue (Run_step now (w\<lparr>hub := Got (BroadcastEv (Username c @ '': '' @ t))\<rparr>)) x =
           queue w x @ [Username c @ '': '' @ t])) \<and>
   (\<not> HasPrefix t ''/'' \<and> hub w \<noteq> AtSelect \<longrightarrow>
      ReadPump_msg clk c t w = Blocked (HubChan (BroadcastEv (Username c @ '': '' @ t))) w) \<and>
   (client_input t = Skip \<longleftrightarrow> TrimSpace t = [])"
proof (intro conjI impI)
  assume p: "HasPrefix t ''/''"
  show "ReadPump_msg clk c t w = handleCommand clk c t w"
    using p by (simp add: ReadPump_msg_def)
  then show "kept w (world_of (ReadPump_msg clk c t w))"
    by (simp add: handleCommand_kept)
next
  assume "\<not> HasPrefix t ''/'' \<and> hub w = AtSelect"
  then show "ReadPump_msg clk c t w = Done (w\<lparr>hub := Got (BroadcastEv (Username c @ '': '' @ t))\<rparr>)"
    by (simp add: ReadPump_msg_def)
next
  let ?m = "Username c @ '': '' @ t"
  let ?w1 = "w\<lparr>hub := Got (BroadcastEv ?m)\<rparr>"
  assume a: "\<not> HasPrefix t ''/'' \<and> hub w = AtSelect \<and> well_formed w \<and> \<not> Mutex w"
  have w1: "well_formed ?w1" "\<not> Mutex ?w1" "hub ?w1 = Got (BroadcastEv ?m)"
    using a by (simp_all add: well_formed_def)
  have "\<forall>x \<in> registered ?w1. has_room ?w1 (Conn x) \<longrightarrow> queue (Run_step now ?w1) x = queue ?w1 x @ [?m]"
    by (rule Run_step_broadcast[OF w1])
  then show "\<forall>x \<in> registered w. has_room w (Conn x) \<longrightarrow> queue (Run_step now ?w1) x = queue w x @ [?m]"
    by (simp add: registered_def has_room_def queue_def)
next
  assume "\<not> HasPrefix t ''/'' \<and> hub w \<noteq> AtSelect"
  then show "ReadPump_msg clk c t w = Blocked (HubChan (BroadcastEv (Username c @ '': '' @ t))) w"
    by (simp add: ReadPump_msg_def)
next
  show "client_input t = Skip \<longleftrightarrow> TrimSpace t = []"
    by (simp add: client_input_def)
qed

theorem C5_counterexample:
  "TrimSpace [] = [] \<and>
   ReadPump_msg ex_clock alice [] lobby = Done (lobby\<lparr>hub := Got (BroadcastEv ''alice: '')\<rparr>) \<and>
   queue (Run_step 9 (lobby\<lparr>hub := Got (BroadcastEv ''alice: '')\<rparr>)) bob = [''alice: ''] \<and>
   TrimSpace ''  '' = [] \<and>
   ReadPump_msg ex_clock alice ''  '' lobby = Done (lobby\<lparr>hub := Got (BroadcastEv ''alice:   '')\<rparr>) \<and>
   ReadPump_msg ex_clock alice [] (Run_step 7 admitted) =
     Blocked (HubChan (BroadcastEv ''alice: '')) (Run_step 7 admitted)"
proof -
  have a: "ReadPump_msg ex_clock alice [] lobby = Done (lobby\<lparr>hub := Got (BroadcastEv ''alice: '')\<rparr>)"
    by (simp add: ReadPump_msg_def HasPrefix_def lobby_def NewServer_def alice_def)
  have b: "ReadPump_msg ex_clock alice ''  '' lobby = Done (lobby\<lparr>hub := Got (BroadcastEv ''alice:   '')\<rparr>)"
    by (simp add: ReadPump_msg_def HasPrefix_def lobby_def NewServer_def alice_def)
  have c: "ReadPump_msg ex_clock alice [] (Run_step 7 admitted) =
     Blocked (HubChan (BroadcastEv ''alice: '')) (Run_step 7 admitted)"
    by (simp add: ReadPump_msg_def HasPrefix_def admitted_step alice_def)
  have w1: "well_formed (lobby\<lparr>hub := Got (BroadcastEv ''alice: '')\<rparr>)"
    "\<not> Mutex (lobby\<lparr>hub := Got (BroadcastEv ''alice: '')\<rparr>)"
    "hub (lobby\<lparr>hub := Got (BroadcastEv ''alice: '')\<rparr>) = Got (BroadcastEv ''alice: '')"
    using lobby_wf by (simp_all add: well_formed_def lobby_def NewServer_def)
  have d: "queue (Run_step 9 (lobby\<lparr>hub := Got (BroadcastEv ''alice: '')\<rparr>)) bob = [''alice: '']"
    using Run_step_broadcast[OF w1, of 9] lobby_room[of "Conn bob"]
    by (simp add: registered_def has_room_def queue_def lobby_def NewServer_def bob_def make_chan_def)
  have e: "TrimSpace [] = []" "TrimSpace ''  '' = []"
    by (simp_all add: TrimSpace_eval)
  show ?thesis using a b c d e by simp
qed

theorem C5_reader_dispatch_witness:
  "HasPrefix ''/help'' ''/'' \<and>
   ReadPump_msg ex_clock alice ''/help'' lobby = handleCommand ex_clock alice ''/help'' lobby \<and>
   \<not> HasPrefix ''hi all'' ''/'' \<and> hub lobby = AtSelect \<and> well_formed lobby \<and> \<not> Mutex lobby \<and>
   bob \<in> registered lobby \<and> has_room lobby (Conn bob) \<and>
   ReadPump_msg ex_clock alice ''hi all'' lobby =
     Done (lobby\<lparr>hub := Got (BroadcastEv ''alice: hi all'')\<rparr>) \<and>
   queue (Run_step 9 (lobby\<lparr>hub := Got (BroadcastEv ''alice: hi all'')\<rparr>)) bob = [''alice: hi all''] \<and>
   hub (Run_step 7 admitted) \<noteq> AtSelect \<and>
   ReadPump_msg ex_clock alice ''hi all'' (Run_step 7 admitted) =
     Blocked (HubChan (BroadcastEv ''alice: hi all'')) (Run_step 7 admitted) \<and>
   client_input '' '' = Skip \<and>
   client_input [CHR 0xC2, CHR 0xA0] = Skip \<and>
   client_input [CHR 0xC2, CHR 0x85, CHR 0xE3, CHR 0x80, CHR 0x80] = Skip \<and>
   client_input ''hi all'' \<noteq> Skip"
proof -
  have p1: "HasPrefix ''/help'' ''/''" and p2: "\<not> HasPrefix ''hi all'' ''/''"
    by (simp_all add: HasPrefix_def)
  have h: "hub lobby = AtSelect" and m: "\<not> Mutex lobby" by (simp_all add: lobby_def NewServer_def)
  have rb: "bob \<in> registered lobby" by (simp add: registered_def lobby_def NewServer_def)
  have qb: "queue lobby bob = []" by (simp add: queue_def lobby_def NewServer_def make_chan_def)
  have ua: "Username alice @ '': '' @ ''hi all'' = ''alice: hi all''" by (simp add: alice_def)
  have hs: "hub (Run_step 7 admitted) \<noteq> AtSelect" by (simp add: admitted_step)
  note T1 = C5_reader_dispatch[where t="''/help''" and clk=ex_clock and c=alice and w=lobby]
  note T2 = C5_reader_dispatch[where t="''hi all''" and clk=ex_clock and c=alice and w=lobby and now=9]
  note T3 = C5_reader_dispatch[where t="''hi all''" and clk=ex_clock and c=alice and w="Run_step 7 admitted"]
  have a: "ReadPump_msg ex_clock alice ''/help'' lobby = handleCommand ex_clock alice ''/help'' lobby"
    using T1 p1 by blast
  have b: "ReadPump_msg ex_clock alice ''hi all'' lobby =
     Done (lobby\<lparr>hub := Got (BroadcastEv ''alice: hi all'')\<rparr>)"
    using T2 p2 h unfolding ua by blast
  have c: "queue (Run_step 9 (lobby\<lparr>hub := Got (BroadcastEv ''alice: hi all'')\<rparr>)) bob = [''alice: hi all'']"
    using T2 p2 h lobby_wf m rb lobby_room[of "Conn bob"] qb unfolding ua by auto
  have d: "ReadPump_msg ex_clock alice ''hi all'' (Run_step 7 admitted) =
     Blocked (HubChan (BroadcastEv ''alice: hi all'')) (Run_step 7 admitted)"
    using T3 p2 hs unfolding ua by blast
  have ts: "TrimSpace '' '' = []" "TrimSpace [CHR 0xC2, CHR 0xA0] = []"
    "TrimSpace [CHR 0xC2, CHR 0x85, CHR 0xE3, CHR 0x80, CHR 0x80] = []"
    "TrimSpace ''hi all'' \<noteq> []"
    by (simp_all add: TrimSpace_eval)
  have e: "client_input '' '' = Skip"
    using C5_reader_dispatch[where t="'' ''"] ts(1) by blast
  have f: "client_input [CHR 0xC2, CHR 0xA0] = Skip"
    using C5_reader_dispatch[where t="[CHR 0xC2, CHR 0xA0]"] ts(2) by blast
  have g: "client_input [CHR 0xC2, CHR 0x85, CHR 0xE3, CHR 0x80, CHR 0x80] = Skip"
    using C5_reader_dispatch[where t="[CHR 0xC2, CHR 0x85, CHR 0xE3, CHR 0x80, CHR 0x80]"] ts(3)
    by blast
  have i: "client_input ''hi all'' \<noteq> Skip"
    using T2 ts(4) by blast
  show ?thesis using p1 p2 h m lobby_wf rb lobby_room[of "Conn bob"] a b c d hs e f g i by blast
qed

subsection \<open>Admission, and the delivery of replies\<close>


lemma taken_loop_True:
  "taken_loop u cs = Some True \<Longrightarrow> \<exists>x \<in> set cs. EqualFold (Username x) u = Some True"
  by (induction cs) (auto split: option.splits bool.splits)



lemma usernameTaken_True:
  "usernameTaken u w = Some True \<Longrightarrow> \<exists>x \<in> registered w. EqualFold (Username x) u = Some True"
  using taken_loop_True[of u "map fst (Clients w)"] by (simp add: usernameTaken_def registered_def)












subsection \<open>The well-formed states are kept\<close>

text \<open>
  The hypothesis of the statements above on the registered clients holds on the fresh
  server and after every handler and command, whatever their outcome; a registration keeps
  it when the channel of the new client is open and its connection is not that of another
  registered client, as after \<^verbatim>\<open>HandleWebSocket\<close>.
\<close>

lemma wf_NewServer: "well_formed NewServer"
  by (simp add: well_formed_def NewServer_def)

lemma wf_kept: "kept w w' \<Longrightarrow> well_formed w \<Longrightarrow> well_formed w'"
  by (simp add: kept_def well_formed_def)

lemma wf_handleCommand: "well_formed w \<Longrightarrow> well_formed (world_of (handleCommand clk c cmd w))"
  using handleCommand_kept wf_kept by blast

lemma wf_delete:
  assumes "well_formed w" and "c \<in> registered w"
  shows "well_formed (w\<lparr>Clients := AList.delete c (Clients w), chans := (chans w)(Conn c := ch)\<rparr>)"
proof -
  have d: "distinct (map (Conn \<circ> fst) (Clients w))" using assms(1) by (simp add: well_formed_def)
  have k: "AList.delete c (Clients w) = filter (\<lambda>p. fst p \<noteq> c) (Clients w)"
    unfolding AList.delete_eq by (rule filter_cong) auto
  have d': "distinct (map (Conn \<circ> fst) (AList.delete c (Clients w)))"
    using d by (simp add: k distinct_map_filter)
  have o: "\<forall>p \<in> set (AList.delete c (Clients w)). Conn (fst p) \<noteq> Conn c"
  proof
    fix p assume p: "p \<in> set (AList.delete c (Clients w))"
    then have pr: "fst p \<in> registered w" "fst p \<noteq> c" by (auto simp: k registered_def)
    show "Conn (fst p) \<noteq> Conn c"
      using wf_inj[OF assms(1) pr(1) assms(2)] pr(2) by blast
  qed
  have op: "\<forall>p \<in> set (AList.delete c (Clients w)). \<not> is_closed (chans w (Conn (fst p)))"
    using assms(1) by (auto simp: k well_formed_def list_all_iff)
  show ?thesis
    using d' o op by (simp add: well_formed_def list_all_iff)
qed

lemma wf_unregisterClient: "well_formed w \<Longrightarrow> well_formed (world_of (unregisterClient c w))"
proof -
  assume w: "well_formed w"
  show ?thesis
  proof (cases "c \<in> registered w")
    case False
    then show ?thesis using w by (simp add: unregisterClient_def registered_def well_formed_def)
  next
    case True
    have "well_formed (w\<lparr>Clients := AList.delete c (Clients w),
               chans := (chans w)(Conn c := (chans w (Conn c))\<lparr>is_closed := True\<rparr>)\<rparr>)"
      by (rule wf_delete[OF w True])
    moreover have "\<not> is_closed (chans w (Conn c))"
      using w True by (auto simp: well_formed_def list_all_iff registered_def)
    ultimately show ?thesis
      using True w by (simp add: unregisterClient_def close_chan_def registered_def well_formed_def)
  qed
qed

lemma wf_registerClient:
  assumes "well_formed w" and "\<not> is_closed (chans w (Conn c))"
    and "c \<in> registered w \<or> Conn c \<notin> Conn ` registered w"
  shows "well_formed (world_of (registerClient now c w))"
proof -
  let ?al = "AList.update c True (Clients w)"
  have keys: "map fst ?al = (if c \<in> set (map fst (Clients w)) then map fst (Clients w)
                             else map fst (Clients w) @ [c])"
    by (rule update_keys)
  have d: "distinct (map Conn (map fst (Clients w)))" using assms(1) by (simp add: well_formed_def)
  have d': "distinct (map Conn (map fst ?al))"
    using d assms(3) unfolding keys by (auto simp: registered_def)
  have o: "\<forall>x \<in> set (map fst ?al). \<not> is_closed (chans w (Conn x))"
    using assms(1,2) unfolding keys by (auto simp: well_formed_def list_all_iff)
  have w1: "\<And>b ch. \<not> is_closed ch \<Longrightarrow>
      well_formed (w\<lparr>Mutex := b, Clients := ?al, ClientJoinTime := AList.update c now (ClientJoinTime w),
           chans := (chans w)(Conn c := ch)\<rparr>)"
    using d' o by (auto simp: well_formed_def list_all_iff)
  have w0: "well_formed (w\<lparr>Mutex := True, Clients := ?al, ClientJoinTime := AList.update c now (ClientJoinTime w)\<rparr>)"
    using d' o by (auto simp: well_formed_def list_all_iff)
  show ?thesis
    using assms(1) w0 w1[of "(chans w (Conn c))\<lparr>buf := buf (chans w (Conn c)) @ [m]\<rparr>" for m]
    by (auto simp: registerClient_def chan_send_def try_send_def Let_def assms(2))
qed

lemma wf_broadcastMessage: "well_formed w \<Longrightarrow> well_formed (world_of (broadcastMessage m w))"
proof (cases "Mutex w")
  case True
  assume "well_formed w"
  then show ?thesis using True by (simp add: broadcastMessage_def)
next
  case False
  assume w: "well_formed w"
  from broadcastMessage_Done[OF w False, of m] obtain w' where "broadcastMessage m w = Done w'"
    by blast
  then show ?thesis using broadcastMessage_wf[OF w _ False] by simp
qed

subsection \<open>A running server\<close>

text \<open>
  On a running server the first registration parks the loop, so no state has two
  registered clients, a registered client means a parked loop and a locked mutex, and a
  turn of the loop for a broadcast, taken only before the first registration, finds no
  client to deliver to.
\<close>

lemma reachable_shape: "reachable w \<Longrightarrow> (idle w \<and> (hub w = AtSelect \<or> (\<exists>ev. hub w = Got ev))) \<or> parked w"
proof (induction rule: reachable.induct)
  case start
  then show ?case by (simp add: idle_def NewServer_def)
next
  case (admit w k u w')
  then show ?case
    by (auto simp: HandleWebSocket_def idle_def parked_def usernameTaken_def
        split: option.splits if_splits)
next
  case (turn w now)
  show ?case
  proof (cases "parked w")
    case True
    then show ?thesis by (auto simp: parked_def Run_step_def)
  next
    case False
    then have i: "idle w" and h: "hub w = AtSelect \<or> (\<exists>ev. hub w = Got ev)" using turn.IH by auto
    show ?thesis
    proof (cases "hub w")
      case AtSelect
      then show ?thesis using i by (simp add: Run_step_def idle_def)
    next
      case (Got ev)
      show ?thesis
      proof (cases ev)
        case (RegisterEv c)
        then show ?thesis using i Got
          by (auto simp: Run_step_def registerClient_def chan_send_def try_send_def Let_def
              idle_def parked_def split: if_splits)
      next
        case (UnregisterEv c)
        then show ?thesis using i Got
          by (auto simp: Run_step_def unregisterClient_def idle_def)
      next
        case (BroadcastEv m)
        then show ?thesis using i Got
          by (auto simp: Run_step_def broadcastMessage_def idle_def)
      qed
    next
      case (Stuck b)
      then show ?thesis using h by simp
    next
      case Crashed
      then show ?thesis using h by simp
    qed
  qed
next
  case (read w clk c t w')
  show ?case
  proof (cases "HasPrefix t ''/''")
    case True
    then have "kept w w'" using read.hyps(2) handleCommand_kept[of w clk c t]
      by (simp add: ReadPump_msg_def)
    then show ?thesis using read.IH by (auto simp: kept_def idle_def parked_def)
  next
    case False
    then show ?thesis using read.hyps(2) read.IH
      by (auto simp: ReadPump_msg_def idle_def parked_def split: if_splits)
  qed
next
  case (leave w c w')
  then show ?case
    by (auto simp: ReadPump_exit_def idle_def parked_def split: if_splits)
next
  case (drain w k)
  then show ?case by (auto simp: idle_def parked_def)
qed

lemma reachable_at_most_one: "reachable w \<Longrightarrow> length (Clients w) \<le> 1"
  using reachable_shape by (fastforce simp: idle_def parked_def)

lemma reachable_registered_parked:
  "reachable w \<Longrightarrow> Clients w \<noteq> [] \<Longrightarrow> Mutex w \<and> ((\<exists>b. hub w = Stuck b) \<or> hub w = Crashed)"
  using reachable_shape by (fastforce simp: idle_def parked_def)

lemma reachable_broadcast_delivers_nothing:
  assumes "reachable w" and "hub w = Got (BroadcastEv m)"
  shows "chans (Run_step now w) = chans w"
proof -
  have "idle w" using reachable_shape[OF assms(1)] assms(2) by (auto simp: parked_def)
  then show ?thesis using assms(2) by (simp add: Run_step_def broadcastMessage_def idle_def)
qed

lemma reachable_admitted: "reachable admitted"
  using reachable.admit[OF reachable.start admit_alice] .

lemma reachable_after_first_turn: "reachable (Run_step now admitted)"
  using reachable.turn[OF reachable_admitted] .

end
